theory Spec2Isabelle
  imports Complex_Main "HOL-Library.AList" "HOL-Library.Sublist"
begin

section \<open>Values of the program\<close>

text \<open>
  A JavaScript number is an IEEE double: a finite double is modelled by the rational it
  denotes (\<open>-0\<close> and \<open>0\<close> coincide, which no operation below tells apart), and the three
  non-finite doubles are constructors of their own.
\<close>

datatype jsnum = Fin rat | PosInf | NegInf | NaN

text \<open>
  The value \<open>JSON.parse\<close> hands to the pipeline. An object is the list of its own
  enumerable properties in the order \<open>Object.entries\<close> enumerates them; a string is
  the list of its characters.
\<close>

datatype json =
    JNull
  | JBool bool
  | JNum jsnum
  | JStr string
  | JArr "json list"
  | JObj "(string \<times> json) list"

text \<open>
  Built-ins of the JavaScript host that the program calls and that are not code of the
  repository: \<open>String(n)\<close> and \<open>Number(s)\<close>, \<open>n.toLocaleString()\<close>,
  \<open>n.toFixed(2)\<close>, the rounded division of doubles, \<open>JSON.stringify\<close>, and the
  members a property read finds on the built-in prototype chain of a value
  (\<open>inherited h v k\<close> is the text \<open>formatVal\<close> shows for the member \<open>k\<close> found
  above the own properties of \<open>v\<close>, if there is one).
\<close>

record host =
  numberToString :: "jsnum \<Rightarrow> string"
  stringToNumber :: "string \<Rightarrow> jsnum"
  toLocaleString :: "jsnum \<Rightarrow> string"
  toFixed2 :: "jsnum \<Rightarrow> string"
  divide :: "jsnum \<Rightarrow> jsnum \<Rightarrow> jsnum"
  jsonStringify :: "json \<Rightarrow> string"
  inherited :: "json \<Rightarrow> string \<Rightarrow> string option"

text \<open>\<open>typeof v === "object" && v !== null\<close>, and \<open>v && typeof v === "object"\<close>.\<close>

fun isObject :: "json \<Rightarrow> bool" where
  "isObject (JArr xs) = True"
| "isObject (JObj kvs) = True"
| "isObject v = False"

text \<open>The truth value of a JSON value in a condition.\<close>

fun truthy :: "json \<Rightarrow> bool" where
  "truthy JNull = False"
| "truthy (JBool b) = b"
| "truthy (JNum n) = (n \<noteq> Fin 0 \<and> n \<noteq> NaN)"
| "truthy (JStr s) = (s \<noteq> [])"
| "truthy (JArr xs) = True"
| "truthy (JObj kvs) = True"

text \<open>The decimal form of a length or an index inside a template string.\<close>

fun showNat :: "nat \<Rightarrow> string" where
  "showNat n =
     (if n < 10 then [''0123456789'' ! n]
      else showNat (n div 10) @ [''0123456789'' ! (n mod 10)])"

declare showNat.simps [simp del]

text \<open>
  \<open>String(v)\<close>. An array is joined with commas, a \<open>null\<close> element giving the empty
  string.
\<close>

fun
  toString :: "host \<Rightarrow> json \<Rightarrow> string" and
  joinElems :: "host \<Rightarrow> json list \<Rightarrow> string"
where
  "toString h JNull = ''null''"
| "toString h (JBool b) = (if b then ''true'' else ''false'')"
| "toString h (JNum n) = numberToString h n"
| "toString h (JStr s) = s"
| "toString h (JArr xs) = joinElems h xs"
| "toString h (JObj kvs) = ''[object Object]''"
| "joinElems h [] = []"
| "joinElems h (x # xs) =
     (if x = JNull then [] else toString h x) @ (if xs = [] then [] else '','' @ joinElems h xs)"

section \<open>The flattened record\<close>

text \<open>
  The record \<open>out\<close> is an ordinary object created by the literal \<open>{}\<close>: its own
  properties in creation order, and whether its prototype has been cleared. An
  assignment \<open>out[k] = v\<close> overwrites an own property in place or appends a new one.
  The one key that behaves differently is \<open>__proto__\<close>: as long as the object inherits
  from \<open>Object.prototype\<close> and has no own property of that name, the assignment goes
  to the inherited accessor, which creates no property; it clears the prototype when
  the value is \<open>null\<close> and ignores every other primitive. (An object value would
  become the prototype; \<open>flattenObject\<close> assigns primitives and \<open>null\<close> only, its
  containers take the recursive branch.)
\<close>

record jsobj =
  props :: "(string \<times> json) list"
  protoNull :: bool

definition emptyObj :: jsobj where
  "emptyObj = \<lparr>props = [], protoNull = False\<rparr>"

definition setProp :: "jsobj \<Rightarrow> string \<Rightarrow> json \<Rightarrow> jsobj" where
  "setProp out k v =
     (if k = ''__proto__'' \<and> \<not> protoNull out \<and> map_of (props out) k = None
      then (if v = JNull then out\<lparr>protoNull := True\<rparr> else out)
      else out\<lparr>props := AList.update k v (props out)\<rparr>)"

text \<open>\<open>function depth(s){ return s ? (s.match(/\./g)?.length || 0) : 0; }\<close>\<close>

definition depth :: "string \<Rightarrow> nat" where
  "depth s = length (filter (\<lambda>c. c = CHR ''.'') s)"

fun summarize :: "host \<Rightarrow> json \<Rightarrow> string" where
  "summarize h (JArr xs) = ''Array('' @ showNat (length xs) @ '')''"
| "summarize h (JObj kvs) = ''Object('' @ showNat (length kvs) @ '' keys)''"
| "summarize h v = toString h v"

text \<open>The keys \<open>flattenObject\<close> builds from the prefix.\<close>

definition selfKey :: "string \<Rightarrow> string" where
  "selfKey pfx = (if pfx \<noteq> [] then pfx else ''value'')"

definition lenKey :: "string \<Rightarrow> string" where
  "lenKey pfx = (if pfx \<noteq> [] then pfx @ ''.__len'' else ''__len'')"

definition elemKey :: "string \<Rightarrow> nat \<Rightarrow> string" where
  "elemKey pfx i =
     (if pfx \<noteq> [] then pfx @ ''['' @ showNat i @ '']'' else ''['' @ showNat i @ '']'')"

definition fieldKey :: "string \<Rightarrow> string \<Rightarrow> string" where
  "fieldKey pfx k = (if pfx \<noteq> [] then pfx @ ''.'' @ k else k)"

text \<open>
  \<open>flattenObject(obj, depthLimit, prefix, out)\<close>: the \<open>null\<close> test first, then the
  depth test, then the array, the object and the scalar. \<open>forEachElem\<close> is the callback
  loop over \<open>obj.slice(0, 8)\<close>, with the index of the next element; \<open>forEntries\<close> is
  the loop over \<open>Object.entries(obj)\<close>. The record is threaded through the calls as
  the source mutates it.
\<close>

function (sequential)
  flattenObject :: "host \<Rightarrow> json \<Rightarrow> int \<Rightarrow> string \<Rightarrow> jsobj \<Rightarrow> jsobj" and
  forEachElem :: "host \<Rightarrow> json list \<Rightarrow> nat \<Rightarrow> int \<Rightarrow> string \<Rightarrow> jsobj \<Rightarrow> jsobj" and
  forEntries :: "host \<Rightarrow> (string \<times> json) list \<Rightarrow> int \<Rightarrow> string \<Rightarrow> jsobj \<Rightarrow> jsobj"
where
  "flattenObject h JNull depthLimit pfx out = out"
| "flattenObject h (JArr xs) depthLimit pfx out =
     (if depthLimit \<le> int (depth pfx)
      then setProp out (selfKey pfx) (JStr (summarize h (JArr xs)))
      else forEachElem h (take 8 xs) 0 depthLimit pfx
             (setProp out (lenKey pfx) (JNum (Fin (of_nat (length xs))))))"
| "flattenObject h (JObj kvs) depthLimit pfx out =
     (if depthLimit \<le> int (depth pfx)
      then setProp out (selfKey pfx) (JStr (summarize h (JObj kvs)))
      else forEntries h kvs depthLimit pfx out)"
| "flattenObject h obj depthLimit pfx out =
     (if depthLimit \<le> int (depth pfx)
      then setProp out (selfKey pfx) (JStr (summarize h obj))
      else setProp out (selfKey pfx) obj)"
| "forEachElem h [] i depthLimit pfx out = out"
| "forEachElem h (v # vs) i depthLimit pfx out =
     forEachElem h vs (Suc i) depthLimit pfx
       (if isObject v then flattenObject h v depthLimit (elemKey pfx i) out
        else setProp out (elemKey pfx i) v)"
| "forEntries h [] depthLimit pfx out = out"
| "forEntries h ((k, v) # kvs) depthLimit pfx out =
     forEntries h kvs depthLimit pfx
       (if isObject v then flattenObject h v depthLimit (fieldKey pfx k) out
        else setProp out (fieldKey pfx k) v)"
  by pat_completeness auto

termination
proof -
  have take_le: "size_list size (take n xs) \<le> size_list size xs" for n and xs :: "json list"
    by (induction xs arbitrary: n) (auto simp: take_Cons split: nat.splits)
  show ?thesis
    by (relation "measure (\<lambda>x. case x of
          Inl (h, obj, d, p, out) \<Rightarrow> size obj
        | Inr (Inl (h, vs, i, d, p, out)) \<Rightarrow> size_list size vs
        | Inr (Inr (h, kvs, d, p, out)) \<Rightarrow> size_list (size_prod (\<lambda>_. 0) size) kvs)")
       (auto simp: le_imp_less_Suc take_le)
qed



subsection \<open>Enumerating a record\<close>

text \<open>
  \<open>Object.entries\<close> and \<open>Object.keys\<close> list the own properties whose key is an
  array index (the canonical decimal form of an integer below \<open>2^32 - 1\<close>) first, in
  ascending numeric order, and then the other keys in creation order.
\<close>

definition readNat :: "string \<Rightarrow> nat" where
  "readNat s = foldl (\<lambda>n c. 10 * n + (of_char c - 48)) 0 s"

definition arrayIndex :: "string \<Rightarrow> nat option" where
  "arrayIndex s =
     (if s \<noteq> [] \<and> list_all (\<lambda>c. c \<in> set ''0123456789'') s
         \<and> showNat (readNat s) = s \<and> readNat s < 4294967295
      then Some (readNat s) else None)"

definition indexOf :: "string \<times> json \<Rightarrow> nat" where
  "indexOf p = (case arrayIndex (fst p) of Some i \<Rightarrow> i | None \<Rightarrow> 0)"

definition ownEntries :: "jsobj \<Rightarrow> (string \<times> json) list" where
  "ownEntries obj =
     sort_key indexOf (filter (\<lambda>p. arrayIndex (fst p) \<noteq> None) (props obj))
       @ filter (\<lambda>p. arrayIndex (fst p) = None) (props obj)"

text \<open>
  A read \<open>flat[k]\<close> of the record: its own property, or \<open>undefined\<close> (\<open>None\<close>).
  The keys the program reads (\<open>suburb\<close>, \<open>name\<close>, \<open>area\<close>) name no member of
  \<open>Object.prototype\<close>.
\<close>

definition getOwn :: "jsobj \<Rightarrow> string \<Rightarrow> json option" where
  "getOwn obj k = map_of (props obj) k"

section \<open>The numeric extractor\<close>

record 'v labelled =
  label :: string
  val :: 'v

fun isFinite :: "jsnum \<Rightarrow> bool" where
  "isFinite (Fin r) = True"
| "isFinite n = False"

fun jsAbs :: "jsnum \<Rightarrow> jsnum" where
  "jsAbs (Fin r) = Fin \<bar>r\<bar>"
| "jsAbs NaN = NaN"
| "jsAbs n = PosInf"

text \<open>
  The difference of two doubles. The result of the machine is the rounded difference;
  it is zero only when the operands are equal and has the sign of the exact
  difference otherwise, and the sort reads nothing but the sign.
\<close>

fun jsSub :: "jsnum \<Rightarrow> jsnum \<Rightarrow> jsnum" where
  "jsSub (Fin a) (Fin b) = Fin (a - b)"
| "jsSub NaN b = NaN"
| "jsSub a NaN = NaN"
| "jsSub PosInf PosInf = NaN"
| "jsSub NegInf NegInf = NaN"
| "jsSub PosInf b = PosInf"
| "jsSub NegInf b = NegInf"
| "jsSub a PosInf = NegInf"
| "jsSub a NegInf = PosInf"

fun positive :: "jsnum \<Rightarrow> bool" where
  "positive (Fin r) = (0 < r)"
| "positive PosInf = True"
| "positive n = False"

text \<open>
  \<open>Array.prototype.sort(comparefn)\<close> is a stable sort: an element moves behind another
  only when the comparator says so with a positive number. With a comparator that is a
  consistent ordering every stable sort returns the same list; the model inserts the
  elements one by one, from the last to the first.
\<close>

fun insertBy :: "('a \<Rightarrow> 'a \<Rightarrow> jsnum) \<Rightarrow> 'a \<Rightarrow> 'a list \<Rightarrow> 'a list" where
  "insertBy cmp x [] = [x]"
| "insertBy cmp x (y # ys) =
     (if positive (cmp x y) then y # insertBy cmp x ys else x # y # ys)"

definition sortBy :: "('a \<Rightarrow> 'a \<Rightarrow> jsnum) \<Rightarrow> 'a list \<Rightarrow> 'a list" where
  "sortBy cmp xs = foldr (insertBy cmp) xs []"

text \<open>
  The body of the loop of \<open>findNumericPairs\<close> (the pair an entry pushes, if any), the
  loop over the entries of the flattened record, and the sort and the cut that follow.
\<close>

definition numericPair :: "host \<Rightarrow> string \<times> json \<Rightarrow> jsnum labelled option" where
  "numericPair h e =
     (let num = (case snd e of JNum n \<Rightarrow> n | JStr s \<Rightarrow> stringToNumber h s | _ \<Rightarrow> NaN) in
      if \<not> isFinite num then None
      else if jsAbs num = Fin 0 then None
      else Some \<lparr>label = fst e, val = num\<rparr>)"

definition byMagnitude :: "jsnum labelled \<Rightarrow> jsnum labelled \<Rightarrow> jsnum" where
  "byMagnitude a b = jsSub (jsAbs (val b)) (jsAbs (val a))"

fun collectPairs :: "host \<Rightarrow> (string \<times> json) list \<Rightarrow> jsnum labelled list" where
  "collectPairs h [] = []"
| "collectPairs h (e # es) =
     (case numericPair h e of None \<Rightarrow> collectPairs h es | Some p \<Rightarrow> p # collectPairs h es)"

definition candidatePairs :: "host \<Rightarrow> json \<Rightarrow> jsnum labelled list" where
  "candidatePairs h data = collectPairs h (ownEntries (flattenObject h data 4 [] emptyObj))"

definition findNumericPairs :: "host \<Rightarrow> json \<Rightarrow> jsnum labelled list" where
  "findNumericPairs h data = take 12 (sortBy byMagnitude (candidatePairs h data))"

section \<open>The summary builder\<close>

fun typeOf :: "json \<Rightarrow> string" where
  "typeOf (JBool b) = ''boolean''"
| "typeOf (JNum n) = ''number''"
| "typeOf (JStr s) = ''string''"
| "typeOf v = ''object''"

text \<open>\<open>a || b\<close> on values that may be \<open>undefined\<close>.\<close>

definition jsOr :: "json option \<Rightarrow> json option \<Rightarrow> json option" where
  "jsOr a b = (case a of None \<Rightarrow> b | Some v \<Rightarrow> if truthy v then a else b)"

text \<open>\<open>data[0] || {}\<close>\<close>

definition firstOrEmpty :: "json list \<Rightarrow> json" where
  "firstOrEmpty xs = (case xs of [] \<Rightarrow> JObj [] | x # _ \<Rightarrow> if truthy x then x else JObj [])"

definition countItem :: "host \<Rightarrow> nat \<Rightarrow> json" where
  "countItem h n = JStr (toLocaleString h (Fin (of_nat n)))"

definition contextOf :: "jsobj \<Rightarrow> json option" where
  "contextOf flat =
     jsOr (jsOr (jsOr (getOwn flat ''suburb'') (getOwn flat ''name'')) (getOwn flat ''area''))
       (Some (JStr []))"

definition computeSummary :: "host \<Rightarrow> json \<Rightarrow> json labelled list" where
  "computeSummary h data =
     (let out =
        (case data of
           JArr xs \<Rightarrow>
             [\<lparr>label = ''Items'', val = countItem h (length xs)\<rparr>,
              \<lparr>label = ''Fields (sample)'',
               val = JNum (Fin (of_nat (length (props
                       (flattenObject h (firstOrEmpty xs) 4 [] emptyObj)))))\<rparr>,
              \<lparr>label = ''Type'', val = JStr ''Array''\<rparr>]
         | JObj kvs \<Rightarrow>
             [\<lparr>label = ''Fields'',
               val = countItem h (length (props (flattenObject h data 4 [] emptyObj)))\<rparr>,
              \<lparr>label = ''Type'', val = JStr ''Object''\<rparr>]
         | _ \<Rightarrow> [\<lparr>label = ''Type'', val = JStr (typeOf data)\<rparr>]);
        flat = flattenObject h data 4 [] emptyObj
      in case contextOf flat of
           None \<Rightarrow> out
         | Some suburb \<Rightarrow>
             if truthy suburb
             then out @ [\<lparr>label = ''Context'', val = JStr (take 48 (toString h suburb))\<rparr>]
             else out)"

section \<open>Number and cell formatting\<close>






section \<open>The table\<close>









section \<open>Vocabulary of the properties\<close>

text \<open>
  A host for the concrete instances below: it prints and reads natural numbers in
  decimal (and prints \<open>?\<close> for any other finite number), takes every other string
  for \<open>NaN\<close> and knows no inherited member. The theorems themselves hold for every
  host.
\<close>

definition plainNumber :: "jsnum \<Rightarrow> string" where
  "plainNumber n =
     (case n of
        Fin r \<Rightarrow> if 0 \<le> r \<and> r = of_int \<lfloor>r\<rfloor> then showNat (nat \<lfloor>r\<rfloor>) else ''?''
      | _ \<Rightarrow> ''NaN'')"

definition plainRead :: "string \<Rightarrow> jsnum" where
  "plainRead s =
     (if s \<noteq> [] \<and> list_all (\<lambda>c. c \<in> set ''0123456789'') s then Fin (of_nat (readNat s))
      else NaN)"

definition plainHost :: host where
  "plainHost =
     \<lparr>numberToString = plainNumber, stringToNumber = plainRead,
      toLocaleString = plainNumber, toFixed2 = plainNumber,
      divide = (\<lambda>a b. case (a, b) of (Fin x, Fin y) \<Rightarrow> Fin (x / y) | _ \<Rightarrow> NaN),
      jsonStringify = (\<lambda>v. ''{}''), inherited = (\<lambda>v k. None)\<rparr>"

text \<open>The keys of a record, and the values it holds.\<close>

definition keysOf :: "jsobj \<Rightarrow> string set" where
  "keysOf obj = fst ` set (props obj)"

definition valuesOf :: "jsobj \<Rightarrow> json set" where
  "valuesOf obj = snd ` set (props obj)"

text \<open>The absolute value of the number of a pair (\<open>0\<close> for a non-finite one).\<close>

definition magnitude :: "jsnum labelled \<Rightarrow> rat" where
  "magnitude p = (case val p of Fin r \<Rightarrow> \<bar>r\<bar> | _ \<Rightarrow> 0)"

text \<open>The first of a list of lookups that found a non-empty (truthy) value.\<close>

fun firstNonEmpty :: "json option list \<Rightarrow> json option" where
  "firstNonEmpty [] = None"
| "firstNonEmpty (None # rest) = firstNonEmpty rest"
| "firstNonEmpty (Some v # rest) = (if truthy v then Some v else firstNonEmpty rest)"


text \<open>A value built from arrays and scalars only, and the scalars that occur in a value.\<close>

fun
  arraysOnly :: "json \<Rightarrow> bool" and
  arraysOnlyList :: "json list \<Rightarrow> bool"
where
  "arraysOnly (JObj kvs) = False"
| "arraysOnly (JArr xs) = arraysOnlyList xs"
| "arraysOnly v = True"
| "arraysOnlyList [] = True"
| "arraysOnlyList (v # vs) = (arraysOnly v \<and> arraysOnlyList vs)"

fun
  scalarsOf :: "json \<Rightarrow> json set" and
  scalarsOfList :: "json list \<Rightarrow> json set" and
  scalarsOfFields :: "(string \<times> json) list \<Rightarrow> json set"
where
  "scalarsOf (JArr xs) = scalarsOfList xs"
| "scalarsOf (JObj kvs) = scalarsOfFields kvs"
| "scalarsOf v = {v}"
| "scalarsOfList [] = {}"
| "scalarsOfList (v # vs) = scalarsOf v \<union> scalarsOfList vs"
| "scalarsOfFields [] = {}"
| "scalarsOfFields ((k, v) # kvs) = scalarsOf v \<union> scalarsOfFields kvs"

section \<open>Auxiliary facts\<close>

subsection \<open>Strings\<close>

lemma digit_nth: "n < 10 \<Longrightarrow> ''0123456789'' ! n \<in> set ''0123456789''"
  by (rule nth_mem) simp

lemma showNat_digits: "set (showNat n) \<subseteq> set ''0123456789''"
proof (induction n rule: showNat.induct)
  case (1 n)
  show ?case
  proof (cases "n < 10")
    case True
    then show ?thesis using digit_nth[of n] by (subst showNat.simps) simp
  next
    case False
    have "n mod 10 < 10" by simp
    then have "''0123456789'' ! (n mod 10) \<in> set ''0123456789''" by (rule digit_nth)
    with False 1 show ?thesis by (subst showNat.simps) simp
  qed
qed

lemma showNat_no_char: "c \<notin> set ''0123456789'' \<Longrightarrow> c \<notin> set (showNat n)"
  using showNat_digits[of n] by blast

lemma digit_val: "n < 10 \<Longrightarrow> of_char (''0123456789'' ! n) - 48 = (n::nat)"
proof -
  assume "n < 10"
  then have "n \<in> set [0..<10]" by simp
  then show ?thesis by (auto simp: upt_rec)
qed

lemma readNat_snoc: "readNat (s @ [c]) = 10 * readNat s + (of_char c - 48)"
  by (simp add: readNat_def)

lemma readNat_showNat: "readNat (showNat n) = n"
proof (induction n rule: showNat.induct)
  case (1 n)
  show ?case
  proof (cases "n < 10")
    case True
    then show ?thesis using digit_val[of n] by (subst showNat.simps) (simp add: readNat_def)
  next
    case False
    have "n mod 10 < 10" by simp
    then have "of_char (''0123456789'' ! (n mod 10)) - 48 = n mod 10" by (rule digit_val)
    with False 1 show ?thesis by (subst showNat.simps) (simp add: readNat_snoc)
  qed
qed

lemma showNat_inj: "showNat a = showNat b \<Longrightarrow> a = b"
  by (metis readNat_showNat)

lemma depth_append: "depth (a @ b) = depth a + depth b"
  by (simp add: depth_def)

lemma depth_showNat: "depth (showNat n) = 0"
  using showNat_no_char[of "CHR ''.''" n] by (auto simp: depth_def filter_empty_conv)

lemma depth_elemKey: "depth (elemKey p i) = depth p"
proof -
  have "depth (''['' @ showNat i @ '']'') = 0"
    unfolding depth_append depth_showNat by (simp add: depth_def)
  then show ?thesis
    unfolding elemKey_def depth_append by (simp add: depth_def)
qed

lemma elemKey_not_proto: "elemKey p i \<noteq> ''__proto__''"
proof
  assume "elemKey p i = ''__proto__''"
  then have "last (elemKey p i) = last ''__proto__''" by simp
  then show False by (simp add: elemKey_def split: if_splits)
qed

lemma lenKey_not_proto: "lenKey p \<noteq> ''__proto__''"
proof
  assume "lenKey p = ''__proto__''"
  then have "last (lenKey p) = last ''__proto__''" by simp
  then show False by (simp add: lenKey_def split: if_splits)
qed

lemma prefix_elemKey: "prefix p (elemKey p i)"
  by (simp add: elemKey_def)

lemma prefix_lenKey: "prefix p (lenKey p)"
  by (simp add: lenKey_def)

lemma prefix_fieldKey: "prefix p (fieldKey p k)"
  by (simp add: fieldKey_def)

lemma prefix_selfKey: "prefix p (selfKey p)"
  by (simp add: selfKey_def)

lemma not_prefix_selfKey: "\<not> prefix p k \<Longrightarrow> k \<noteq> selfKey p"
  using prefix_selfKey by blast

lemma elemKey_not_prefix_lenKey: "\<not> prefix (elemKey p i) (lenKey p)"
  by (simp add: elemKey_def lenKey_def)

lemma prefix_snoc_same:
  assumes "prefix (xs @ [c]) (ys @ [c])" "c \<notin> set xs" "c \<notin> set ys"
  shows "xs = ys"
proof -
  from assms(1) obtain zs where eq: "ys @ [c] = xs @ [c] @ zs" by (auto simp: prefix_def)
  show ?thesis
  proof (cases zs rule: rev_cases)
    case Nil
    with eq show ?thesis by simp
  next
    case (snoc zs' z)
    with eq have "ys = xs @ [c] @ zs'" by simp
    with assms(3) show ?thesis by simp
  qed
qed

lemma prefix_elemKey_elemKey: "prefix (elemKey p i) (elemKey p j) \<Longrightarrow> i = j"
proof -
  assume "prefix (elemKey p i) (elemKey p j)"
  then have "prefix (showNat i @ '']'') (showNat j @ '']'')"
    by (simp add: elemKey_def split: if_splits)
  then have "showNat i = showNat j"
    by (intro prefix_snoc_same[where c = "CHR '']''"]) (simp_all add: showNat_no_char)
  then show ?thesis by (rule showNat_inj)
qed

subsection \<open>Assignments\<close>

lemma getOwn_setProp_other: "k' \<noteq> k \<Longrightarrow> getOwn (setProp out k v) k' = getOwn out k'"
  by (simp add: getOwn_def setProp_def update_conv')

lemma getOwn_setProp_same: "k \<noteq> ''__proto__'' \<Longrightarrow> getOwn (setProp out k v) k = Some v"
  by (simp add: getOwn_def setProp_def update_conv')

lemma keysOf_getOwn: "k \<in> keysOf out \<longleftrightarrow> getOwn out k \<noteq> None"
  by (simp add: keysOf_def getOwn_def map_of_eq_None_iff)

lemma keysOf_setProp_mono: "k \<in> keysOf out \<Longrightarrow> k \<in> keysOf (setProp out k' v)"
  by (auto simp: keysOf_def setProp_def dom_update)

lemma set_update_subset: "set (AList.update k v ps) \<subseteq> insert (k, v) (set ps)"
  by (induction ps) auto

lemma valuesOf_setProp: "valuesOf (setProp out k v) \<subseteq> insert v (valuesOf out)"
  using set_update_subset[of k v "props out"]
  by (auto simp: valuesOf_def setProp_def)

subsection \<open>Invariants of the traversal\<close>

lemma flatten_invariant:
  assumes step: "\<And>out k v. P out \<Longrightarrow> \<not> isObject v \<Longrightarrow> P (setProp out k v)"
  shows "P out \<Longrightarrow> P (flattenObject h obj d p out)"
    and "P out \<Longrightarrow> P (forEachElem h vs i d p out)"
    and "P out \<Longrightarrow> P (forEntries h kvs d p out)"
  by (induction h obj d p out and h vs i d p out and h kvs d p out
      rule: flattenObject_forEachElem_forEntries.induct)
     (simp_all add: step)

lemma keysOf_flatten_mono:
  "k \<in> keysOf out \<Longrightarrow> k \<in> keysOf (flattenObject h obj d p out)"
  "k \<in> keysOf out \<Longrightarrow> k \<in> keysOf (forEachElem h vs i d p out)"
  "k \<in> keysOf out \<Longrightarrow> k \<in> keysOf (forEntries h kvs d p out)"
  by (rule flatten_invariant[where P = "\<lambda>out. k \<in> keysOf out"]; simp add: keysOf_setProp_mono)+

text \<open>The frame of a call: a key that does not extend the prefix keeps its value.\<close>

lemma flatten_frame:
  "\<not> prefix p k \<Longrightarrow> getOwn (flattenObject h obj d p out) k = getOwn out k"
  "(\<And>j. i \<le> j \<Longrightarrow> j < i + length vs \<Longrightarrow> \<not> prefix (elemKey p j) k) \<Longrightarrow>
     getOwn (forEachElem h vs i d p out) k = getOwn out k"
  "(\<And>f. f \<in> fst ` set kvs \<Longrightarrow> \<not> prefix (fieldKey p f) k) \<Longrightarrow>
     getOwn (forEntries h kvs d p out) k = getOwn out k"
proof (induction h obj d p out and h vs i d p out and h kvs d p out
      rule: flattenObject_forEachElem_forEntries.induct)
  case (1 h depthLimit pfx out)
  then show ?case by simp
next
  case (2 h xs depthLimit pfx out)
  have a: "k \<noteq> selfKey pfx" "k \<noteq> lenKey pfx"
    using 2(2) prefix_selfKey prefix_lenKey by blast+
  have b: "\<not> prefix (elemKey pfx j) k" for j
    using 2(2) prefix_elemKey prefix_order.trans by blast
  show ?case
    using a b 2(1) by (simp add: getOwn_setProp_other)
next
  case (3 h kvs depthLimit pfx out)
  have a: "k \<noteq> selfKey pfx" using 3(2) prefix_selfKey by blast
  have b: "\<not> prefix (fieldKey pfx f) k" for f
    using 3(2) prefix_fieldKey prefix_order.trans by blast
  show ?case using a b 3(1) by (simp add: getOwn_setProp_other)
next
  case (5 h i depthLimit pfx out)
  then show ?case by simp
next
  case (6 h v vs i depthLimit pfx out)
  have here: "\<not> prefix (elemKey pfx i) k" using 6(3)[of i] by simp
  then have ne: "k \<noteq> elemKey pfx i" by auto
  have rest: "getOwn (forEachElem h vs (Suc i) depthLimit pfx out') k = getOwn out' k"
    if "out' = (if isObject v then flattenObject h v depthLimit (elemKey pfx i) out
                else setProp out (elemKey pfx i) v)" for out'
    unfolding that by (rule 6(2)) (use 6(3) in auto)
  show ?case
    using here ne 6(1) rest by (simp add: getOwn_setProp_other)
next
  case (7 h depthLimit pfx out)
  then show ?case by simp
next
  case (8 h k' v kvs depthLimit pfx out)
  have here: "\<not> prefix (fieldKey pfx k') k" using 8(3)[of k'] by simp
  then have ne: "k \<noteq> fieldKey pfx k'" by auto
  have rest: "getOwn (forEntries h kvs depthLimit pfx out') k = getOwn out' k"
    if "out' = (if isObject v then flattenObject h v depthLimit (fieldKey pfx k') out
                else setProp out (fieldKey pfx k') v)" for out'
    unfolding that by (rule 8(2)) (use 8(3) in auto)
  show ?case
    using here ne 8(1) rest by (simp add: getOwn_setProp_other)
qed (simp_all add: getOwn_setProp_other not_prefix_selfKey)

text \<open>A scalar or \<open>null\<close> element of the loop over an array ends up under its own key.\<close>

lemma forEachElem_leaf_entry:
  "j < length vs \<Longrightarrow> \<not> isObject (vs ! j) \<Longrightarrow>
   getOwn (forEachElem h vs i d p out) (elemKey p (i + j)) = Some (vs ! j)"
proof (induction vs arbitrary: i j out)
  case Nil
  then show ?case by simp
next
  case (Cons v vs)
  show ?case
  proof (cases j)
    case 0
    with Cons.prems have leaf: "\<not> isObject v" by simp
    have "getOwn (forEachElem h vs (Suc i) d p (setProp out (elemKey p i) v)) (elemKey p i)
        = getOwn (setProp out (elemKey p i) v) (elemKey p i)"
      by (rule flatten_frame(2)) (use prefix_elemKey_elemKey in fastforce)
    with leaf 0 show ?thesis
      by (simp add: getOwn_setProp_same elemKey_not_proto)
  next
    case (Suc j')
    with Cons.prems have "j' < length vs" "\<not> isObject (vs ! j')" by simp_all
    from Cons.IH[OF this, of "Suc i"] Suc show ?thesis by simp
  qed
qed

lemma forEntries_null_key:
  "(k, JNull) \<in> set kvs \<Longrightarrow> fieldKey p k \<noteq> ''__proto__'' \<Longrightarrow>
   fieldKey p k \<in> keysOf (forEntries h kvs d p out)"
proof (induction kvs arbitrary: out)
  case Nil
  then show ?case by simp
next
  case (Cons e kvs)
  obtain k' v' where e: "e = (k', v')" by (cases e)
  show ?case
  proof (cases "e = (k, JNull)")
    case True
    have "fieldKey p k \<in> keysOf (setProp out (fieldKey p k) JNull)"
      using Cons.prems(2) by (simp add: keysOf_getOwn getOwn_setProp_same)
    then show ?thesis using True by (simp add: keysOf_flatten_mono(3))
  next
    case False
    with Cons.prems have "(k, JNull) \<in> set kvs" by simp
    from Cons.IH[OF this Cons.prems(2)] e show ?thesis by simp
  qed
qed

lemma forEntries_null_value:
  "(k, JNull) \<in> set kvs \<Longrightarrow> fieldKey p k \<noteq> ''__proto__'' \<Longrightarrow> distinct (map fst kvs) \<Longrightarrow>
   (\<And>k'. k' \<in> fst ` set kvs \<Longrightarrow> k' \<noteq> k \<Longrightarrow> \<not> prefix (fieldKey p k') (fieldKey p k)) \<Longrightarrow>
   getOwn (forEntries h kvs d p out) (fieldKey p k) = Some JNull"
proof (induction kvs arbitrary: out)
  case Nil
  then show ?case by simp
next
  case (Cons e kvs)
  obtain k' v' where e: "e = (k', v')" by (cases e)
  show ?case
  proof (cases "e = (k, JNull)")
    case True
    with Cons.prems(3) have notin: "k \<notin> fst ` set kvs" by simp
    have "getOwn (forEntries h kvs d p (setProp out (fieldKey p k) JNull)) (fieldKey p k)
        = getOwn (setProp out (fieldKey p k) JNull) (fieldKey p k)"
    proof (rule flatten_frame(3))
      fix f assume "f \<in> fst ` set kvs"
      with notin have "f \<noteq> k" "f \<in> fst ` set (e # kvs)" by auto
      then show "\<not> prefix (fieldKey p f) (fieldKey p k)" using Cons.prems(4) by blast
    qed
    then show ?thesis using True Cons.prems(2) by (simp add: getOwn_setProp_same)
  next
    case False
    with Cons.prems have a: "(k, JNull) \<in> set kvs" by simp
    have b: "distinct (map fst kvs)" using Cons.prems(3) by simp
    have c: "\<And>k'. k' \<in> fst ` set kvs \<Longrightarrow> k' \<noteq> k \<Longrightarrow> \<not> prefix (fieldKey p k') (fieldKey p k)"
      using Cons.prems(4) by simp
    from Cons.IH[OF a Cons.prems(2) b c] e show ?thesis by simp
  qed
qed



text \<open>A loop over scalars and \<open>null\<close> writes the keys of its elements and no other.\<close>

lemma forEachElem_leaves_frame:
  "list_all (\<lambda>v. \<not> isObject v) vs \<Longrightarrow>
   (\<And>j. i \<le> j \<Longrightarrow> j < i + length vs \<Longrightarrow> k \<noteq> elemKey p j) \<Longrightarrow>
   getOwn (forEachElem h vs i d p out) k = getOwn out k"
proof (induction vs arbitrary: i out)
  case Nil
  then show ?case by simp
next
  case (Cons v vs)
  have "getOwn (forEachElem h vs (Suc i) d p (setProp out (elemKey p i) v)) k
      = getOwn (setProp out (elemKey p i) v) k"
    by (rule Cons.IH) (use Cons.prems in auto)
  moreover have "k \<noteq> elemKey p i" using Cons.prems(2)[of i] by simp
  ultimately show ?case using Cons.prems(1) by (simp add: getOwn_setProp_other)
qed

text \<open>Arrays and scalars only: the prefix never gains a separator.\<close>

lemma scalarsOf_leaf: "\<not> isObject v \<Longrightarrow> scalarsOf v = {v}"
  by (cases v) simp_all

lemma valuesOf_setProp_in: "v \<in> S \<Longrightarrow> valuesOf out \<subseteq> S \<Longrightarrow> valuesOf (setProp out k v) \<subseteq> S"
  using valuesOf_setProp[of out k v] by blast

lemma arraysOnly_values:
  "arraysOnly obj \<Longrightarrow> depth p = 0 \<Longrightarrow> 1 \<le> d \<Longrightarrow> scalarsOf obj \<subseteq> S \<Longrightarrow>
     (\<And>n. JNum (Fin (of_nat n)) \<in> S) \<Longrightarrow> valuesOf out \<subseteq> S \<Longrightarrow>
     valuesOf (flattenObject h obj d p out) \<subseteq> S"
  "arraysOnlyList vs \<Longrightarrow> depth p = 0 \<Longrightarrow> 1 \<le> d \<Longrightarrow> scalarsOfList vs \<subseteq> S \<Longrightarrow>
     (\<And>n. JNum (Fin (of_nat n)) \<in> S) \<Longrightarrow> valuesOf out \<subseteq> S \<Longrightarrow>
     valuesOf (forEachElem h vs i d p out) \<subseteq> S"
  "kvs = [] \<Longrightarrow> forEntries h kvs d p out = out"
proof (induction h obj d p out and h vs i d p out and h kvs d p out
      rule: flattenObject_forEachElem_forEntries.induct)
  case (2 h xs depthLimit pfx out)
  have al: "arraysOnlyList (take 8 xs)" "scalarsOfList (take 8 xs) \<subseteq> S"
  proof -
    have "arraysOnlyList xs \<Longrightarrow> arraysOnlyList (take n xs)" for n
      by (induction xs arbitrary: n) (auto simp: take_Cons split: nat.splits)
    then show "arraysOnlyList (take 8 xs)" using 2(2) by simp
    have "scalarsOfList (take n xs) \<subseteq> scalarsOfList xs" for n
      by (induction xs arbitrary: n) (auto simp: take_Cons split: nat.splits)
    then show "scalarsOfList (take 8 xs) \<subseteq> S" using 2(5) by fastforce
  qed
  have "valuesOf (setProp out (lenKey pfx) (JNum (Fin (of_nat (length xs))))) \<subseteq> S"
    using valuesOf_setProp[of out "lenKey pfx" "JNum (Fin (of_nat (length xs)))"] 2(6,7) by blast
  then show ?case
    using 2(1)[OF _ al(1) 2(3,4) al(2) 2(6)] 2(3,4) by simp
next
  case (6 h v vs i depthLimit pfx out)
  have v: "arraysOnly v" "scalarsOf v \<subseteq> S" and vs: "arraysOnlyList vs" "scalarsOfList vs \<subseteq> S"
    using 6(3,6) by simp_all
  show ?case
  proof (cases "isObject v")
    case True
    have "valuesOf (flattenObject h v depthLimit (elemKey pfx i) out) \<subseteq> S"
      using 6(1)[OF True v(1) _ 6(5) v(2) 6(7,8)] 6(4) by (simp add: depth_elemKey)
    then show ?thesis
      using 6(2)[OF vs(1) 6(4,5) vs(2) 6(7)] True by simp
  next
    case False
    then have "v \<in> S" using v(2) by (simp add: scalarsOf_leaf)
    then have "valuesOf (setProp out (elemKey pfx i) v) \<subseteq> S"
      using valuesOf_setProp[of out "elemKey pfx i" v] 6(8) by blast
    then show ?thesis
      using 6(2)[OF vs(1) 6(4,5) vs(2) 6(7)] False by simp
  qed
qed (simp_all add: valuesOf_setProp_in)

lemma arraysOnly_limit:
  "arraysOnly obj \<Longrightarrow> depth p = 0 \<Longrightarrow> 1 \<le> d \<Longrightarrow> 1 \<le> d' \<Longrightarrow>
     flattenObject h obj d p out = flattenObject h obj d' p out"
  "arraysOnlyList vs \<Longrightarrow> depth p = 0 \<Longrightarrow> 1 \<le> d \<Longrightarrow> 1 \<le> d' \<Longrightarrow>
     forEachElem h vs i d p out = forEachElem h vs i d' p out"
  "kvs = [] \<Longrightarrow> forEntries h kvs d p out = out"
proof (induction h obj d p out and h vs i d p out and h kvs d p out
      rule: flattenObject_forEachElem_forEntries.induct)
  case (2 h xs depthLimit pfx out)
  have "arraysOnlyList xs \<Longrightarrow> arraysOnlyList (take n xs)" for n
    by (induction xs arbitrary: n) (auto simp: take_Cons split: nat.splits)
  then have "arraysOnlyList (take 8 xs)" using 2(2) by simp
  from 2(1)[OF _ this 2(3,4,5)] 2(3,4,5) show ?case by simp
next
  case (6 h v vs i depthLimit pfx out)
  have v: "arraysOnly v" and vs: "arraysOnlyList vs" using 6(3) by simp_all
  show ?case
  proof (cases "isObject v")
    case True
    have "flattenObject h v depthLimit (elemKey pfx i) out = flattenObject h v d' (elemKey pfx i) out"
      using 6(1)[OF True v _ 6(5,6)] 6(4) by (simp add: depth_elemKey)
    then show ?thesis using 6(2)[OF vs 6(4,5,6)] True by simp
  next
    case False
    then show ?thesis using 6(2)[OF vs 6(4,5,6)] by simp
  qed
qed simp_all

subsection \<open>The sort of the numeric extractor\<close>

text \<open>On finite numbers the comparator is the order of the magnitudes, and the model of
  the sort is the stable insertion sort of the library.\<close>

lemma jsAbs_zero: "jsAbs n = Fin 0 \<longleftrightarrow> n = Fin 0"
  by (cases n) simp_all

lemma numericPair_Some:
  "numericPair h e = Some p \<Longrightarrow> isFinite (val p) \<and> val p \<noteq> Fin 0"
  by (auto simp: numericPair_def Let_def jsAbs_zero split: if_splits)

lemma collectPairs_finite:
  "p \<in> set (collectPairs h es) \<Longrightarrow> isFinite (val p) \<and> val p \<noteq> Fin 0"
  by (induction es) (auto dest: numericPair_Some split: option.splits)

lemma candidatePairs_finite:
  "p \<in> set (candidatePairs h data) \<Longrightarrow> isFinite (val p) \<and> val p \<noteq> Fin 0"
  unfolding candidatePairs_def by (rule collectPairs_finite)

lemma positive_byMagnitude:
  "isFinite (val x) \<Longrightarrow> isFinite (val y) \<Longrightarrow>
   positive (byMagnitude x y) \<longleftrightarrow> magnitude x < magnitude y"
  by (cases "val x"; cases "val y") (simp_all add: byMagnitude_def magnitude_def)

lemma insertBy_insort:
  "isFinite (val x) \<Longrightarrow> (\<And>y. y \<in> set ys \<Longrightarrow> isFinite (val y)) \<Longrightarrow>
   insertBy byMagnitude x ys = insort_key (\<lambda>p. - magnitude p) x ys"
  by (induction ys) (auto simp: positive_byMagnitude)

lemma sortBy_sort_key:
  "(\<And>y. y \<in> set xs \<Longrightarrow> isFinite (val y)) \<Longrightarrow>
   sortBy byMagnitude xs = sort_key (\<lambda>p. - magnitude p) xs"
proof (induction xs)
  case Nil
  then show ?case by (simp add: sortBy_def)
next
  case (Cons x xs)
  have "sortBy byMagnitude xs = sort_key (\<lambda>p. - magnitude p) xs"
    using Cons by simp
  moreover have "insertBy byMagnitude x (sort_key (\<lambda>p. - magnitude p) xs)
      = insort_key (\<lambda>p. - magnitude p) x (sort_key (\<lambda>p. - magnitude p) xs)"
    by (rule insertBy_insort) (use Cons.prems in auto)
  ultimately show ?case by (simp add: sortBy_def)
qed

lemma prefix_filter_take: "prefix (filter P (take n xs)) (filter P xs)"
proof -
  have "filter P xs = filter P (take n xs) @ filter P (drop n xs)"
    by (metis append_take_drop_id filter_append)
  then show ?thesis by (simp add: prefix_def)
qed

subsection \<open>The columns of the table\<close>






section \<open>The claims\<close>

subsection \<open>C1: the ranked numeric pairs\<close>

text \<open>
  C1: for every JSON value the list \<open>findNumericPairs\<close> returns has at most 12 pairs,
  holds no pair whose number is zero or not finite, and is sorted by non-increasing
  absolute value; pairs of equal absolute value keep the order in which the loop met
  them, which is the order of the entries of the flattened record (\<open>candidatePairs\<close>
  are the pairs the loop pushes, in that order): the pairs of any one magnitude in the
  result are an initial segment of the pairs of that magnitude in \<open>candidatePairs\<close>.
  Altogether the result is the first 12 pairs of the stable sort of \<open>candidatePairs\<close>
  by descending magnitude. The order of the entries is the order in which the
  flattening created them whenever no key of the record is an array index (such keys
  are enumerated first).
\<close>

theorem findNumericPairs_ranked:
  "findNumericPairs h data
     = take 12 (sort_key (\<lambda>p. - magnitude p) (candidatePairs h data)) \<and>
   length (findNumericPairs h data) \<le> 12 \<and>
   (\<forall>p \<in> set (findNumericPairs h data). isFinite (val p) \<and> val p \<noteq> Fin 0) \<and>
   sorted_wrt (\<lambda>a b. magnitude b \<le> magnitude a) (findNumericPairs h data) \<and>
   prefix (filter (\<lambda>p. magnitude p = m) (findNumericPairs h data))
          (filter (\<lambda>p. magnitude p = m) (candidatePairs h data)) \<and>
   (list_all (\<lambda>e. arrayIndex (fst e) = None) (props (flattenObject h data 4 [] emptyObj)) \<longrightarrow>
      candidatePairs h data = collectPairs h (props (flattenObject h data 4 [] emptyObj)))"
proof -
  let ?key = "\<lambda>p. - magnitude p"
  let ?c = "candidatePairs h data"
  have eq: "findNumericPairs h data = take 12 (sort_key ?key ?c)"
    unfolding findNumericPairs_def
    by (simp add: sortBy_sort_key candidatePairs_finite)
  have len: "length (findNumericPairs h data) \<le> 12" by (simp add: eq)
  have mem: "\<forall>p \<in> set (findNumericPairs h data). isFinite (val p) \<and> val p \<noteq> Fin 0"
  proof
    fix p assume "p \<in> set (findNumericPairs h data)"
    then have "p \<in> set (sort_key ?key ?c)" unfolding eq by (rule in_set_takeD)
    then show "isFinite (val p) \<and> val p \<noteq> Fin 0" by (simp add: candidatePairs_finite)
  qed
  have "sorted (map ?key (sort_key ?key ?c))" by (rule sorted_sort_key)
  then have "sorted_wrt (\<lambda>a b. ?key a \<le> ?key b) (sort_key ?key ?c)"
    by (simp add: sorted_map)
  then have "sorted_wrt (\<lambda>a b. magnitude b \<le> magnitude a) (sort_key ?key ?c)" by simp
  then have srt: "sorted_wrt (\<lambda>a b. magnitude b \<le> magnitude a) (findNumericPairs h data)"
    unfolding eq by (rule sorted_wrt_take)
  have "filter (\<lambda>p. magnitude p = m) (sort_key ?key ?c) = filter (\<lambda>p. magnitude p = m) ?c"
    using sort_key_stable[of ?key "- m" ?c] by simp
  then have stab: "prefix (filter (\<lambda>p. magnitude p = m) (findNumericPairs h data))
          (filter (\<lambda>p. magnitude p = m) ?c)"
    unfolding eq using prefix_filter_take[of "\<lambda>p. magnitude p = m" 12 "sort_key ?key ?c"] by simp
  have plain: "candidatePairs h data = collectPairs h (props (flattenObject h data 4 [] emptyObj))"
    if "list_all (\<lambda>e. arrayIndex (fst e) = None) (props (flattenObject h data 4 [] emptyObj))"
  proof -
    from that have none: "\<forall>e \<in> set (props (flattenObject h data 4 [] emptyObj)).
        arrayIndex (fst e) = None"
      by (simp add: list_all_iff)
    then have "filter (\<lambda>p. arrayIndex (fst p) \<noteq> None) (props (flattenObject h data 4 [] emptyObj))
        = []"
      by (simp add: filter_empty_conv)
    moreover from none
    have "filter (\<lambda>p. arrayIndex (fst p) = None) (props (flattenObject h data 4 [] emptyObj))
        = props (flattenObject h data 4 [] emptyObj)"
      by (simp add: filter_id_conv)
    ultimately show ?thesis by (simp add: candidatePairs_def ownEntries_def)
  qed
  show ?thesis using eq len mem srt stab plain by blast
qed

theorem findNumericPairs_ranked_witness:
  "findNumericPairs plainHost
     (JObj [(''a'', JNum (Fin 3)), (''b'', JStr ''x''), (''c'', JNum (Fin (- 3))),
            (''d'', JNum (Fin 0)), (''e'', JNum (Fin 7)), (''f'', JStr ''12''),
            (''g'', JNum (Fin 1)), (''h'', JNum (Fin 1)), (''i'', JNum (Fin 1)),
            (''j'', JNum (Fin 1)), (''k'', JNum (Fin 1)), (''l'', JNum (Fin 1)),
            (''m'', JNum (Fin 1)), (''n'', JNum (Fin 1)), (''o'', JNum (Fin 1))])
   = [\<lparr>label = ''f'', val = Fin 12\<rparr>, \<lparr>label = ''e'', val = Fin 7\<rparr>,
      \<lparr>label = ''a'', val = Fin 3\<rparr>, \<lparr>label = ''c'', val = Fin (- 3)\<rparr>,
      \<lparr>label = ''g'', val = Fin 1\<rparr>, \<lparr>label = ''h'', val = Fin 1\<rparr>,
      \<lparr>label = ''i'', val = Fin 1\<rparr>, \<lparr>label = ''j'', val = Fin 1\<rparr>,
      \<lparr>label = ''k'', val = Fin 1\<rparr>, \<lparr>label = ''l'', val = Fin 1\<rparr>,
      \<lparr>label = ''m'', val = Fin 1\<rparr>, \<lparr>label = ''n'', val = Fin 1\<rparr>]"
  using findNumericPairs_ranked[of plainHost
     "JObj [(''a'', JNum (Fin 3)), (''b'', JStr ''x''), (''c'', JNum (Fin (- 3))),
            (''d'', JNum (Fin 0)), (''e'', JNum (Fin 7)), (''f'', JStr ''12''),
            (''g'', JNum (Fin 1)), (''h'', JNum (Fin 1)), (''i'', JNum (Fin 1)),
            (''j'', JNum (Fin 1)), (''k'', JNum (Fin 1)), (''l'', JNum (Fin 1)),
            (''m'', JNum (Fin 1)), (''n'', JNum (Fin 1)), (''o'', JNum (Fin 1))]" 3]
  by (simp add: findNumericPairs_def candidatePairs_def ownEntries_def
      emptyObj_def setProp_def depth_def fieldKey_def arrayIndex_def
      numericPair_def plainHost_def plainRead_def readNat_def
      sortBy_def byMagnitude_def)

subsection \<open>C2: null positions\<close>

text \<open>
  C2 says that a \<open>null\<close> at any position (root, object field or array element)
  contributes no entry. The code skips \<open>null\<close> at the root only: the two loops test
  \<open>v !== null\<close> before they recurse and store a \<open>null\<close> element or field as they
  store a scalar. At the inputs \<open>{a: null}\<close> and \<open>[null]\<close> the record holds the
  entries \<open>a\<close> and \<open>[0]\<close> with the value \<open>null\<close>.
\<close>

theorem null_positions_counterexample:
  "props (flattenObject plainHost (JObj [(''a'', JNull)]) 4 [] emptyObj) = [(''a'', JNull)] \<and>
   props (flattenObject plainHost (JArr [JNull]) 4 [] emptyObj)
     = [(''__len'', JNum (Fin 1)), (''[0]'', JNull)]"
  by (simp add: emptyObj_def setProp_def depth_def fieldKey_def lenKey_def elemKey_def
      showNat.simps)

text \<open>
  C2 as amended: a \<open>null\<close> at the root contributes no entry (the record is returned as
  it was). A \<open>null\<close> among the first 8 elements of an array that is expanded is stored
  under the element's key with the value \<open>null\<close>. A \<open>null\<close> field of an object that
  is expanded makes the field's path a key of the record, unless that path is the key
  \<open>__proto__\<close>; the key holds \<open>null\<close> when the fields of the object have distinct
  names and no other field's path is a prefix of it (a later field would overwrite it).
\<close>

theorem null_positions:
  "flattenObject h JNull depthLimit pfx out = out \<and>
   (i < min 8 (length xs) \<and> int (depth pfx) < depthLimit \<and> xs ! i = JNull \<longrightarrow>
      getOwn (flattenObject h (JArr xs) depthLimit pfx out) (elemKey pfx i) = Some JNull) \<and>
   ((k, JNull) \<in> set kvs \<and> int (depth pfx) < depthLimit \<and> fieldKey pfx k \<noteq> ''__proto__'' \<longrightarrow>
      fieldKey pfx k \<in> keysOf (flattenObject h (JObj kvs) depthLimit pfx out) \<and>
      (distinct (map fst kvs) \<and>
       (\<forall>k' \<in> fst ` set kvs. k' \<noteq> k \<longrightarrow> \<not> prefix (fieldKey pfx k') (fieldKey pfx k)) \<longrightarrow>
       getOwn (flattenObject h (JObj kvs) depthLimit pfx out) (fieldKey pfx k) = Some JNull))"
proof (intro conjI impI)
  show "flattenObject h JNull depthLimit pfx out = out" by simp
next
  assume a: "i < min 8 (length xs) \<and> int (depth pfx) < depthLimit \<and> xs ! i = JNull"
  then have "i < length (take 8 xs)" "\<not> isObject (take 8 xs ! i)" by simp_all
  from forEachElem_leaf_entry[OF this, of h 0 depthLimit pfx] a
  show "getOwn (flattenObject h (JArr xs) depthLimit pfx out) (elemKey pfx i) = Some JNull"
    by simp
next
  assume a: "(k, JNull) \<in> set kvs \<and> int (depth pfx) < depthLimit \<and> fieldKey pfx k \<noteq> ''__proto__''"
  then show "fieldKey pfx k \<in> keysOf (flattenObject h (JObj kvs) depthLimit pfx out)"
    using forEntries_null_key[of k kvs pfx h depthLimit out] by simp
  assume b: "distinct (map fst kvs) \<and>
       (\<forall>k' \<in> fst ` set kvs. k' \<noteq> k \<longrightarrow> \<not> prefix (fieldKey pfx k') (fieldKey pfx k))"
  have "getOwn (forEntries h kvs depthLimit pfx out) (fieldKey pfx k) = Some JNull"
    by (rule forEntries_null_value) (use a b in blast)+
  with a show "getOwn (flattenObject h (JObj kvs) depthLimit pfx out) (fieldKey pfx k) = Some JNull"
    by simp
qed

theorem null_positions_witness:
  "flattenObject plainHost JNull 4 [] emptyObj = emptyObj \<and>
   getOwn (flattenObject plainHost (JArr [JBool True, JNull]) 4 [] emptyObj) ''[1]'' = Some JNull \<and>
   ''a'' \<in> keysOf (flattenObject plainHost (JObj [(''a'', JNull), (''b'', JStr ''x'')]) 4 [] emptyObj) \<and>
   getOwn (flattenObject plainHost (JObj [(''a'', JNull), (''b'', JStr ''x'')]) 4 [] emptyObj) ''a''
     = Some JNull"
  using null_positions[of plainHost 4 "[]" emptyObj 1 "[JBool True, JNull]" "''a''"
      "[(''a'', JNull), (''b'', JStr ''x'')]"]
  by (simp add: elemKey_def fieldKey_def depth_def showNat.simps)

subsection \<open>C3: totality\<close>



subsection \<open>C4: only leaves are stored\<close>

text \<open>
  C4: for every JSON value, every depth limit (and every prefix), every value of the
  record \<open>flattenObject\<close> returns is a non-container leaf (\<open>null\<close>, a boolean, a
  number or a string), provided the record it started from held leaves only, as the
  empty record of the default argument does.
\<close>

theorem flatten_leaves_only:
  assumes "\<forall>v \<in> valuesOf out. \<not> isObject v"
  shows "\<forall>v \<in> valuesOf (flattenObject h obj depthLimit pfx out). \<not> isObject v"
proof (rule flatten_invariant(1)[where P = "\<lambda>out. \<forall>v \<in> valuesOf out. \<not> isObject v"])
  show "\<forall>v \<in> valuesOf out. \<not> isObject v" by (rule assms)
next
  fix out k v
  assume "\<forall>v \<in> valuesOf out. \<not> isObject v" "\<not> isObject v"
  then show "\<forall>w \<in> valuesOf (setProp out k v). \<not> isObject w"
    using valuesOf_setProp[of out k v] by auto
qed

theorem flatten_leaves_only_witness:
  "valuesOf (flattenObject plainHost
      (JObj [(''a'', JObj [(''b'', JObj [(''c'', JNum (Fin 1))]), (''n'', JArr [JNull, JNull])])])
      1 [] emptyObj) = {JStr ''Object(1 keys)'', JStr ''Array(2)''}
   \<and> \<not> isObject (JStr ''Object(1 keys)'') \<and> \<not> isObject (JStr ''Array(2)'')"
  using flatten_leaves_only[of emptyObj plainHost
      "JObj [(''a'', JObj [(''b'', JObj [(''c'', JNum (Fin 1))]), (''n'', JArr [JNull, JNull])])]"
      1 "[]"]
  by (simp add: valuesOf_def emptyObj_def setProp_def depth_def selfKey_def fieldKey_def
      showNat.simps)

subsection \<open>C5: depth limit 0\<close>

text \<open>
  C5 says that \<open>flattenObject(v, 0)\<close> is a single entry \<open>value\<close> that holds the summary
  of a container and the raw scalar otherwise. At limit 0 the code stores
  \<open>summarize(v)\<close>, which is \<open>String(v)\<close> for a scalar: the boolean \<open>true\<close> is stored
  as the string \<open>"true"\<close>, not as itself; and for \<open>null\<close> the record is empty.
\<close>

theorem flatten_limit_zero_counterexample:
  "props (flattenObject plainHost (JBool True) 0 [] emptyObj) = [(''value'', JStr ''true'')] \<and>
   props (flattenObject plainHost (JBool True) 0 [] emptyObj) \<noteq> [(''value'', JBool True)] \<and>
   props (flattenObject plainHost JNull 0 [] emptyObj) = []"
  by (simp add: emptyObj_def setProp_def depth_def selfKey_def)

text \<open>
  C5 as amended: for \<open>null\<close> the record of \<open>flattenObject(v, 0)\<close> is empty; for every
  other value it has the single key \<open>value\<close>, which holds the string \<open>Array(n)\<close> for
  an array of length \<open>n\<close>, the string \<open>Object(n keys)\<close> for an object of \<open>n\<close>
  fields, and the string form \<open>String(v)\<close> of a scalar (the scalar itself only when
  it is a string).
\<close>

theorem flatten_limit_zero:
  "flattenObject h JNull 0 [] emptyObj = emptyObj \<and>
   props (flattenObject h (JArr xs) 0 [] emptyObj)
     = [(''value'', JStr (''Array('' @ showNat (length xs) @ '')''))] \<and>
   props (flattenObject h (JObj kvs) 0 [] emptyObj)
     = [(''value'', JStr (''Object('' @ showNat (length kvs) @ '' keys)''))] \<and>
   props (flattenObject h (JStr s) 0 [] emptyObj) = [(''value'', JStr s)] \<and>
   props (flattenObject h (JNum n) 0 [] emptyObj) = [(''value'', JStr (numberToString h n))] \<and>
   props (flattenObject h (JBool b) 0 [] emptyObj)
     = [(''value'', JStr (if b then ''true'' else ''false''))]"
  by (simp add: emptyObj_def setProp_def depth_def selfKey_def)

theorem flatten_limit_zero_witness:
  "props (flattenObject plainHost (JArr [JNull, JNull, JNull]) 0 [] emptyObj)
     = [(''value'', JStr ''Array(3)'')] \<and>
   props (flattenObject plainHost (JObj [(''a'', JNull)]) 0 [] emptyObj)
     = [(''value'', JStr ''Object(1 keys)'')] \<and>
   props (flattenObject plainHost (JNum (Fin 42)) 0 [] emptyObj) = [(''value'', JStr ''42'')]"
  using flatten_limit_zero[of plainHost "[JNull, JNull, JNull]" "[(''a'', JNull)]" "[]" "Fin 42" True]
  by (simp add: showNat.simps plainHost_def plainNumber_def)

subsection \<open>C6: the entries of an array\<close>

text \<open>
  C6 says that an array below the depth limit contributes its \<open>__len\<close> entry and at
  most 8 entries derived from its elements. The code expands at most 8 elements, but
  an element that is itself a container recurses and contributes one entry for each of
  its own leaves: the one-element array in \<open>{a: [{p: 1, ..., x: 9}]}\<close> contributes
  nine entries \<open>a[0].p\<close>, ..., \<open>a[0].x\<close> besides \<open>a.__len\<close>.
\<close>

theorem array_entries_counterexample:
  "map fst (props (flattenObject plainHost
      (JObj [(''a'', JArr [JObj [(''p'', JNum (Fin 1)), (''q'', JNum (Fin 2)),
         (''r'', JNum (Fin 3)), (''s'', JNum (Fin 4)), (''t'', JNum (Fin 5)),
         (''u'', JNum (Fin 6)), (''v'', JNum (Fin 7)), (''w'', JNum (Fin 8)),
         (''x'', JNum (Fin 9))]])])
      4 [] emptyObj))
   = [''a.__len'', ''a[0].p'', ''a[0].q'', ''a[0].r'', ''a[0].s'', ''a[0].t'', ''a[0].u'',
      ''a[0].v'', ''a[0].w'', ''a[0].x'']"
  by (simp add: emptyObj_def setProp_def depth_def fieldKey_def lenKey_def elemKey_def
      showNat.simps)

text \<open>
  C6 as amended: when an array of length \<open>n\<close> is flattened below the depth limit
  (under any prefix, the root included), the resulting record holds the entry
  \<open>__len\<close> at the array's path with the value \<open>n\<close>; every other key the call adds
  extends the bracket-index path \<open>prefix[i]\<close> of one of the first 8 elements
  (\<open>i < min 8 n\<close>), so elements past index 7 contribute nothing; an element among
  the first 8 that is a scalar or \<open>null\<close> is stored under \<open>prefix[i]\<close> itself; and
  when the first 8 elements are all scalars or \<open>null\<close> the keys added besides
  \<open>__len\<close> are among these \<open>prefix[i]\<close>, at most 8.
\<close>

theorem array_entries:
  assumes below: "int (depth pfx) < depthLimit"
  shows
    "getOwn (flattenObject h (JArr xs) depthLimit pfx out) (lenKey pfx)
       = Some (JNum (Fin (of_nat (length xs)))) \<and>
     keysOf (flattenObject h (JArr xs) depthLimit pfx out)
       \<subseteq> keysOf out \<union> {lenKey pfx} \<union> {k. \<exists>i < min 8 (length xs). prefix (elemKey pfx i) k} \<and>
     (i < min 8 (length xs) \<and> \<not> isObject (xs ! i) \<longrightarrow>
        getOwn (flattenObject h (JArr xs) depthLimit pfx out) (elemKey pfx i) = Some (xs ! i)) \<and>
     (list_all (\<lambda>v. \<not> isObject v) (take 8 xs) \<longrightarrow>
        keysOf (flattenObject h (JArr xs) depthLimit pfx out)
          \<subseteq> keysOf out \<union> {lenKey pfx} \<union> elemKey pfx ` {..< min 8 (length xs)} \<and>
        card (keysOf (flattenObject h (JArr xs) depthLimit pfx out) - keysOf out - {lenKey pfx})
          \<le> 8)"
proof -
  define out' where "out' = setProp out (lenKey pfx) (JNum (Fin (of_nat (length xs))))"
  define R where "R = flattenObject h (JArr xs) depthLimit pfx out"
  have R: "R = forEachElem h (take 8 xs) 0 depthLimit pfx out'"
    using below by (simp add: R_def out'_def)
  have len: "getOwn R (lenKey pfx) = Some (JNum (Fin (of_nat (length xs))))"
  proof -
    have "getOwn R (lenKey pfx) = getOwn out' (lenKey pfx)"
      unfolding R by (rule flatten_frame(2)) (rule elemKey_not_prefix_lenKey)
    then show ?thesis by (simp add: out'_def getOwn_setProp_same lenKey_not_proto)
  qed
  have keys: "keysOf R
      \<subseteq> keysOf out \<union> {lenKey pfx} \<union> {k. \<exists>i < min 8 (length xs). prefix (elemKey pfx i) k}"
  proof
    fix k assume k: "k \<in> keysOf R"
    show "k \<in> keysOf out \<union> {lenKey pfx} \<union> {k. \<exists>i < min 8 (length xs). prefix (elemKey pfx i) k}"
    proof (rule ccontr)
      assume n: "\<not> ?thesis"
      then have "getOwn R k = getOwn out' k"
        unfolding R by (intro flatten_frame(2)) auto
      also have "\<dots> = getOwn out k" using n by (simp add: out'_def getOwn_setProp_other)
      also have "\<dots> = None" using n by (simp add: keysOf_getOwn)
      finally show False using k by (simp add: keysOf_getOwn)
    qed
  qed
  have elem: "getOwn R (elemKey pfx i) = Some (xs ! i)"
    if "i < min 8 (length xs)" "\<not> isObject (xs ! i)"
  proof -
    from that have "i < length (take 8 xs)" "\<not> isObject (take 8 xs ! i)" by simp_all
    from forEachElem_leaf_entry[OF this, of h 0 depthLimit pfx out'] that show ?thesis
      by (simp add: R)
  qed
  have leaves: "keysOf R \<subseteq> keysOf out \<union> {lenKey pfx} \<union> elemKey pfx ` {..< min 8 (length xs)}"
    if all: "list_all (\<lambda>v. \<not> isObject v) (take 8 xs)"
  proof
    fix k assume k: "k \<in> keysOf R"
    show "k \<in> keysOf out \<union> {lenKey pfx} \<union> elemKey pfx ` {..< min 8 (length xs)}"
    proof (rule ccontr)
      assume n: "\<not> ?thesis"
      then have "getOwn R k = getOwn out' k"
        unfolding R by (intro forEachElem_leaves_frame all) auto
      also have "\<dots> = getOwn out k" using n by (simp add: out'_def getOwn_setProp_other)
      also have "\<dots> = None" using n by (simp add: keysOf_getOwn)
      finally show False using k by (simp add: keysOf_getOwn)
    qed
  qed
  have count: "card (keysOf R - keysOf out - {lenKey pfx}) \<le> 8"
    if all: "list_all (\<lambda>v. \<not> isObject v) (take 8 xs)"
  proof -
    have "keysOf R - keysOf out - {lenKey pfx} \<subseteq> elemKey pfx ` {..< min 8 (length xs)}"
      using leaves[OF all] by blast
    then have "card (keysOf R - keysOf out - {lenKey pfx})
        \<le> card (elemKey pfx ` {..< min 8 (length xs)})"
      by (intro card_mono) simp_all
    also have "\<dots> \<le> card {..< min 8 (length xs)}" by (rule card_image_le) simp
    also have "\<dots> \<le> 8" by simp
    finally show ?thesis .
  qed
  show ?thesis
    using len keys elem leaves count unfolding R_def by blast
qed

theorem array_entries_witness:
  "getOwn (flattenObject plainHost
      (JArr [JNull, JNull, JNull, JNull, JNull, JNull, JNull, JBool True, JBool False, JNull])
      4 ''a'' emptyObj) ''a.__len'' = Some (JNum (Fin 10)) \<and>
   getOwn (flattenObject plainHost
      (JArr [JNull, JNull, JNull, JNull, JNull, JNull, JNull, JBool True, JBool False, JNull])
      4 ''a'' emptyObj) ''a[7]'' = Some (JBool True) \<and>
   keysOf (flattenObject plainHost
      (JArr [JNull, JNull, JNull, JNull, JNull, JNull, JNull, JBool True, JBool False, JNull])
      4 ''a'' emptyObj)
     = {''a.__len'', ''a[0]'', ''a[1]'', ''a[2]'', ''a[3]'', ''a[4]'', ''a[5]'', ''a[6]'', ''a[7]''}"
  using array_entries[of "''a''" 4 plainHost
      "[JNull, JNull, JNull, JNull, JNull, JNull, JNull, JBool True, JBool False, JNull]"
      emptyObj 7]
  by (simp add: keysOf_def getOwn_def emptyObj_def setProp_def depth_def lenKey_def elemKey_def
      showNat.simps)

subsection \<open>C7: the table of an array\<close>



subsection \<open>C8: the context item\<close>

text \<open>
  C8: for every JSON value the summary looks up the keys \<open>suburb\<close>, \<open>name\<close> and
  \<open>area\<close>, in this order, in the flattened record of the whole value (default depth
  limit 4); the first lookup that finds a non-empty value (one that counts as true in
  a condition) gives the one item labelled \<open>Context\<close>, whose value is the string form
  of that value cut to its first 48 characters; when no lookup finds one there is no
  \<open>Context\<close> item. For the input \<open>{suburb: "Testville", population: 1000}\<close> the
  item's value is \<open>Testville\<close>.
\<close>

theorem context_item:
  "filter (\<lambda>it. label it = ''Context'') (computeSummary h data)
     = (case firstNonEmpty
               [getOwn (flattenObject h data 4 [] emptyObj) ''suburb'',
                getOwn (flattenObject h data 4 [] emptyObj) ''name'',
                getOwn (flattenObject h data 4 [] emptyObj) ''area''] of
          None \<Rightarrow> []
        | Some v \<Rightarrow> [\<lparr>label = ''Context'', val = JStr (take 48 (toString h v))\<rparr>]) \<and>
   filter (\<lambda>it. label it = ''Context'')
     (computeSummary h (JObj [(''suburb'', JStr ''Testville''), (''population'', JNum (Fin 1000))]))
     = [\<lparr>label = ''Context'', val = JStr ''Testville''\<rparr>]"
proof
  define flat where "flat = flattenObject h data 4 [] emptyObj"
  define found where
    "found = firstNonEmpty [getOwn flat ''suburb'', getOwn flat ''name'', getOwn flat ''area'']"
  define outs where "outs =
        (case data of
           JArr xs \<Rightarrow>
             [\<lparr>label = ''Items'', val = countItem h (length xs)\<rparr>,
              \<lparr>label = ''Fields (sample)'',
               val = JNum (Fin (of_nat (length (props
                       (flattenObject h (firstOrEmpty xs) 4 [] emptyObj)))))\<rparr>,
              \<lparr>label = ''Type'', val = JStr ''Array''\<rparr>]
         | JObj kvs \<Rightarrow>
             [\<lparr>label = ''Fields'', val = countItem h (length (props flat))\<rparr>,
              \<lparr>label = ''Type'', val = JStr ''Object''\<rparr>]
         | _ \<Rightarrow> [\<lparr>label = ''Type'', val = JStr (typeOf data)\<rparr>])"
  have ctx: "contextOf flat = (case found of None \<Rightarrow> Some (JStr []) | Some v \<Rightarrow> Some v)"
    by (auto simp: found_def contextOf_def jsOr_def split: option.splits)
  have tr: "firstNonEmpty xs = Some v \<Longrightarrow> truthy v" for xs v
    by (induction xs rule: firstNonEmpty.induct) (auto split: if_splits)
  have labels: "filter (\<lambda>it. label it = ''Context'') outs = []"
    by (cases data) (simp_all add: outs_def)
  have shape: "computeSummary h data =
      (case contextOf flat of
         None \<Rightarrow> outs
       | Some suburb \<Rightarrow>
           if truthy suburb
           then outs @ [\<lparr>label = ''Context'', val = JStr (take 48 (toString h suburb))\<rparr>]
           else outs)"
    unfolding computeSummary_def Let_def outs_def flat_def by (rule refl)
  have "filter (\<lambda>it. label it = ''Context'') (computeSummary h data)
     = (case found of
          None \<Rightarrow> []
        | Some v \<Rightarrow> [\<lparr>label = ''Context'', val = JStr (take 48 (toString h v))\<rparr>])"
  proof (cases found)
    case None
    then show ?thesis by (simp add: shape ctx labels)
  next
    case (Some v)
    then have "truthy v" unfolding found_def by (rule tr)
    with Some show ?thesis by (simp add: shape ctx labels)
  qed
  then show "filter (\<lambda>it. label it = ''Context'') (computeSummary h data)
     = (case firstNonEmpty
               [getOwn (flattenObject h data 4 [] emptyObj) ''suburb'',
                getOwn (flattenObject h data 4 [] emptyObj) ''name'',
                getOwn (flattenObject h data 4 [] emptyObj) ''area''] of
          None \<Rightarrow> []
        | Some v \<Rightarrow> [\<lparr>label = ''Context'', val = JStr (take 48 (toString h v))\<rparr>])"
    by (simp add: found_def flat_def)
  show "filter (\<lambda>it. label it = ''Context'')
     (computeSummary h (JObj [(''suburb'', JStr ''Testville''), (''population'', JNum (Fin 1000))]))
     = [\<lparr>label = ''Context'', val = JStr ''Testville''\<rparr>]"
    by (simp add: computeSummary_def Let_def contextOf_def jsOr_def getOwn_def emptyObj_def
        setProp_def depth_def fieldKey_def)
qed

theorem context_item_witness:
  "computeSummary plainHost (JObj [(''name'', JStr []), (''area'', JNum (Fin 12))])
     = [\<lparr>label = ''Fields'', val = JStr ''2''\<rparr>, \<lparr>label = ''Type'', val = JStr ''Object''\<rparr>,
        \<lparr>label = ''Context'', val = JStr ''12''\<rparr>] \<and>
   computeSummary plainHost (JArr [JObj [(''suburb'', JStr ''X'')]])
     = [\<lparr>label = ''Items'', val = JStr ''1''\<rparr>,
        \<lparr>label = ''Fields (sample)'', val = JNum (Fin 1)\<rparr>,
        \<lparr>label = ''Type'', val = JStr ''Array''\<rparr>]"
  using context_item[of plainHost "JObj [(''name'', JStr []), (''area'', JNum (Fin 12))]"]
    context_item[of plainHost "JArr [JObj [(''suburb'', JStr ''X'')]]"]
  by (simp add: computeSummary_def Let_def contextOf_def jsOr_def getOwn_def emptyObj_def
      setProp_def depth_def fieldKey_def lenKey_def elemKey_def firstOrEmpty_def countItem_def
      plainHost_def plainNumber_def showNat.simps)

subsection \<open>C10: arrays do not consume the depth limit\<close>

text \<open>
  C10: for a value built from arrays and scalars only and a depth limit of at least 1,
  \<open>flattenObject\<close> never stores a summary placeholder, however deep the arrays are
  nested: every value of the record is a scalar (or \<open>null\<close>) that occurs in the input
  or the length of an array, and the record is the same for every other limit of at
  least 1, so the limit takes no effect.
\<close>

theorem arrays_never_summarized:
  assumes "arraysOnly obj" and "1 \<le> depthLimit"
  shows "valuesOf (flattenObject h obj depthLimit [] emptyObj)
           \<subseteq> scalarsOf obj \<union> range (\<lambda>n. JNum (Fin (of_nat n))) \<and>
         (1 \<le> d' \<longrightarrow>
            flattenObject h obj depthLimit [] emptyObj = flattenObject h obj d' [] emptyObj)"
proof
  show "valuesOf (flattenObject h obj depthLimit [] emptyObj)
           \<subseteq> scalarsOf obj \<union> range (\<lambda>n. JNum (Fin (of_nat n)))"
    by (rule arraysOnly_values(1)[OF assms(1) _ assms(2)])
       (simp_all add: depth_def valuesOf_def emptyObj_def)
  show "1 \<le> d' \<longrightarrow>
      flattenObject h obj depthLimit [] emptyObj = flattenObject h obj d' [] emptyObj"
    using arraysOnly_limit(1)[OF assms(1) _ assms(2), of "[]" d'] by (simp add: depth_def)
qed

theorem arrays_never_summarized_witness:
  "valuesOf (flattenObject plainHost (JArr [JArr [JArr [JArr [JArr [JArr [JStr ''x'']]]]]]) 1 []
      emptyObj) = {JNum (Fin 1), JStr ''x''} \<and>
   flattenObject plainHost (JArr [JArr [JArr [JArr [JArr [JArr [JStr ''x'']]]]]]) 1 [] emptyObj
     = flattenObject plainHost (JArr [JArr [JArr [JArr [JArr [JArr [JStr ''x'']]]]]]) 4 [] emptyObj"
  using arrays_never_summarized[of "JArr [JArr [JArr [JArr [JArr [JArr [JStr ''x'']]]]]]" 1
      plainHost 4]
  by (simp add: valuesOf_def emptyObj_def setProp_def depth_def lenKey_def elemKey_def
      showNat.simps)

end
